theory Spec2Isabelle
  imports Main "HOL-Library.AList"
begin

section \<open>The buffer pool manager and its LRU replacer\<close>

text \<open>
  A shallow embedding of \<^verbatim>\<open>src/buffer/lru_replacer.cpp\<close> and
  \<^verbatim>\<open>src/buffer/buffer_pool_manager.cpp\<close>. Every member function becomes a function
  from the object's state to a result and the new state. Where C++ leaves the behaviour
  undefined (popping an empty list, dereferencing \<^verbatim>\<open>end()\<close>, reading a variable that
  was never written, indexing past the frame array) the model returns an \<open>error\<close>.
\<close>

text \<open>
  \<^verbatim>\<open>page_id_t\<close> and \<^verbatim>\<open>frame_id_t\<close> are 32-bit integers. Page identifiers come from the
  caller and may be negative. Frame identifiers are the indexes that the constructor puts in
  the free list; no operation makes up another one, so they are natural numbers here. The
  pin count is a C++ \<^verbatim>\<open>int\<close>, taken as an unbounded integer: reaching its overflow takes
  more than two thousand million pins of one frame.
\<close>

type_synonym page_id_t = int
type_synonym frame_id_t = nat

datatype error = Pop_Front_Empty | Deref_End | Uninitialized_Read | Out_Of_Bounds

subsection \<open>LRUReplacer\<close>

text \<open>\<^verbatim>\<open>std::list<frame_id_t> pages; size_t num_pages;\<close>\<close>

record LRUReplacer =
  pages :: "frame_id_t list"
  num_pages :: nat

definition new_LRUReplacer :: "nat \<Rightarrow> LRUReplacer" where
  "new_LRUReplacer n = \<lparr>pages = [], num_pages = n\<rparr>"

text \<open>\<^verbatim>\<open>Victim\<close>: the output parameter is written only when the result is true.\<close>

definition Victim :: "LRUReplacer \<Rightarrow> frame_id_t option \<times> LRUReplacer" where
  "Victim r =
     (if pages r = [] then (None, r)
      else (Some (hd (pages r)), r\<lparr>pages := tl (pages r)\<rparr>))"

text \<open>\<^verbatim>\<open>Pin\<close>: \<^verbatim>\<open>std::find\<close> gives the first occurrence, which is erased.\<close>

definition Pin :: "LRUReplacer \<Rightarrow> frame_id_t \<Rightarrow> LRUReplacer" where
  "Pin r frame_id =
     (if frame_id \<in> set (pages r) then r\<lparr>pages := remove1 frame_id (pages r)\<rparr> else r)"

text \<open>
  \<^verbatim>\<open>Unpin\<close>: \<^verbatim>\<open>pop_front\<close> on an empty list is undefined in C++; it can only be
  reached with \<^verbatim>\<open>num_pages == 0\<close>.
\<close>

definition Unpin :: "LRUReplacer \<Rightarrow> frame_id_t \<Rightarrow> error + LRUReplacer" where
  "Unpin r frame_id =
     (if frame_id \<notin> set (pages r) then
        (if length (pages r) \<ge> num_pages r then
           (if pages r = [] then Inl Pop_Front_Empty
            else Inr (r\<lparr>pages := tl (pages r) @ [frame_id]\<rparr>))
         else Inr (r\<lparr>pages := pages r @ [frame_id]\<rparr>))
      else Inr r)"

definition Size :: "LRUReplacer \<Rightarrow> nat" where
  "Size r = length (pages r)"

subsection \<open>Pages and the disk manager\<close>

text \<open>
  Modelled from the spec: the page size is a build-time constant of
  \<^verbatim>\<open>common/config.h\<close>, which is not among the sources. No theorem depends on the number.
\<close>

definition PAGE_SIZE :: nat where
  "PAGE_SIZE = 4096"

text \<open>
  Modelled from the spec: the class \<^verbatim>\<open>Page\<close> (\<^verbatim>\<open>storage/page/page.h\<close>) is not among
  the sources. A frame slot has a data buffer, the resident page identifier, a pin count and
  a dirty flag; a fresh slot holds no page, is clean and unpinned.
\<close>

record Page =
  data :: string
  page_id :: page_id_t
  pin_count :: int
  is_dirty :: bool

definition INVALID_PAGE_ID :: page_id_t where
  "INVALID_PAGE_ID = - 1"

definition zeroed :: string where
  "zeroed = replicate PAGE_SIZE (CHR 0x00)"

definition new_Page :: Page where
  "new_Page = \<lparr>data = zeroed, page_id = INVALID_PAGE_ID, pin_count = 0, is_dirty = False\<rparr>"

text \<open>
  Modelled from the spec: \<^verbatim>\<open>Page::ResetMemory\<close> is declared in the missing
  \<^verbatim>\<open>page.h\<close>. It clears the data buffer; the metadata fields are the manager's to set.
\<close>

definition ResetMemory :: "Page \<Rightarrow> Page" where
  "ResetMemory p = p\<lparr>data := zeroed\<rparr>"

text \<open>
  Modelled from the spec: the disk manager (section 6 of the spec) is an external
  collaborator. \<open>image\<close> is the on-disk content of every page, \<open>writes\<close> the log of the
  \<^verbatim>\<open>WritePage\<close> calls in the order they were issued, \<open>next_page_id\<close> the next fresh
  identifier \<^verbatim>\<open>AllocatePage\<close> hands out, \<open>deallocated\<close> the identifiers marked for reuse.
\<close>

record DiskManager =
  image :: "page_id_t \<Rightarrow> string"
  writes :: "(page_id_t \<times> string) list"
  next_page_id :: page_id_t
  deallocated :: "page_id_t set"

definition ReadPage :: "DiskManager \<Rightarrow> page_id_t \<Rightarrow> string" where
  "ReadPage d p = image d p"

definition WritePage :: "DiskManager \<Rightarrow> page_id_t \<Rightarrow> string \<Rightarrow> DiskManager" where
  "WritePage d p buf =
     d\<lparr>image := (image d)(p := buf), writes := writes d @ [(p, buf)]\<rparr>"

definition AllocatePage :: "DiskManager \<Rightarrow> page_id_t \<times> DiskManager" where
  "AllocatePage d = (next_page_id d, d\<lparr>next_page_id := next_page_id d + 1\<rparr>)"

definition DeallocatePage :: "DiskManager \<Rightarrow> page_id_t \<Rightarrow> DiskManager" where
  "DeallocatePage d p = d\<lparr>deallocated := insert p (deallocated d)\<rparr>"

definition new_DiskManager :: "(page_id_t \<Rightarrow> string) \<Rightarrow> DiskManager" where
  "new_DiskManager img = \<lparr>image = img, writes = [], next_page_id = 0, deallocated = {}\<rparr>"

subsection \<open>BufferPoolManager\<close>

text \<open>
  The page table is a \<^verbatim>\<open>std::unordered_map<page_id_t, frame_id_t>\<close>: an association
  list with distinct keys, whose order stands for the iteration order of the container
  (which C++ leaves open). \<^verbatim>\<open>page_table_[p] = f\<close> is \<open>AList.update\<close>.
\<close>

text \<open>
  The fields are the members \<^verbatim>\<open>pool_size_\<close>, \<^verbatim>\<open>pages_\<close>, \<^verbatim>\<open>replacer_\<close>,
  \<^verbatim>\<open>free_list_\<close>, \<^verbatim>\<open>page_table_\<close> and \<^verbatim>\<open>disk_manager_\<close>; the frame array is
  \<open>pages_arr\<close>, since \<open>pages\<close> is the replacer's list.
\<close>

record BufferPoolManager =
  pool_size :: nat
  pages_arr :: "Page list"
  replacer :: LRUReplacer
  free_list :: "frame_id_t list"
  page_table :: "(page_id_t \<times> frame_id_t) list"
  disk_manager :: DiskManager

text \<open>The constructor: all frames are fresh and sit in the free list, in index order.\<close>

definition new_BufferPoolManager :: "nat \<Rightarrow> DiskManager \<Rightarrow> BufferPoolManager" where
  "new_BufferPoolManager n d =
     \<lparr>pool_size = n,
      pages_arr = replicate n new_Page,
      replacer = new_LRUReplacer n,
      free_list = [0 ..< n],
      page_table = [],
      disk_manager = d\<rparr>"

text \<open>\<^verbatim>\<open>GetPages() + frame_id\<close>, dereferenced.\<close>

definition GetPage :: "BufferPoolManager \<Rightarrow> frame_id_t \<Rightarrow> error + Page" where
  "GetPage s frame_id =
     (if frame_id < length (pages_arr s) then Inr (pages_arr s ! frame_id) else Inl Out_Of_Bounds)"

definition GetFrameIdByPageId :: "BufferPoolManager \<Rightarrow> page_id_t \<Rightarrow> frame_id_t option" where
  "GetFrameIdByPageId s p = map_of (page_table s) p"

text \<open>
  \<^verbatim>\<open>std::find_if(page_table.begin(), page_table.end(), pair.second == frame_id)\<close>:
  the first entry, in iteration order, that maps to the frame.
\<close>

definition find_frame :: "(page_id_t \<times> frame_id_t) list \<Rightarrow> frame_id_t \<Rightarrow> (page_id_t \<times> frame_id_t) option" where
  "find_frame pt frame_id = find (\<lambda>kv. snd kv = frame_id) pt"


text \<open>
  \<^verbatim>\<open>FetchPageImpl\<close>, lines 50 to 70: the frame for a page that is not resident. The
  free list comes first; otherwise the replacer's victim, whose old page is written back
  when dirty, unmapped and cleared. \<open>None\<close> is the \<^verbatim>\<open>return nullptr\<close>.
\<close>

definition Fetch_replacement :: "BufferPoolManager \<Rightarrow> error + (frame_id_t option \<times> BufferPoolManager)" where
  "Fetch_replacement s =
     (if free_list s \<noteq> [] then
        Inr (Some (hd (free_list s)), s\<lparr>free_list := tl (free_list s)\<rparr>)
      else
        (case Victim (replacer s) of
           (None, r) \<Rightarrow> Inr (None, s\<lparr>replacer := r\<rparr>)
         | (Some frame_id, r) \<Rightarrow>
             (case find_frame (page_table s) frame_id of
                None \<Rightarrow> Inl Deref_End
              | Some pos \<Rightarrow>
                  (case GetPage s frame_id of
                     Inl e \<Rightarrow> Inl e
                   | Inr old_page \<Rightarrow>
                       Inr (Some frame_id,
                            s\<lparr>replacer := r,
                              disk_manager :=
                                (if is_dirty old_page
                                 then WritePage (disk_manager s) (fst pos) (data old_page)
                                 else disk_manager s),
                              page_table := remove1 pos (page_table s),
                              pages_arr := (pages_arr s)[frame_id := ResetMemory old_page]\<rparr>)))))"

text \<open>
  \<^verbatim>\<open>FetchPageImpl\<close>, lines 71 to 83: read the page into the frame, map it, pin the frame
  in the replacer, and raise a pin count that is not positive to one.
\<close>

definition Fetch_install :: "BufferPoolManager \<Rightarrow> page_id_t \<Rightarrow> frame_id_t \<Rightarrow> error + (frame_id_t option \<times> BufferPoolManager)" where
  "Fetch_install s p frame_id =
     (case GetPage s frame_id of
        Inl e \<Rightarrow> Inl e
      | Inr page \<Rightarrow>
          Inr (Some frame_id,
               s\<lparr>pages_arr := (pages_arr s)[frame_id :=
                    page\<lparr>data := ReadPage (disk_manager s) p,
                         pin_count := (if pin_count page \<le> 0 then 1 else pin_count page)\<rparr>],
                 page_table := AList.update p frame_id (page_table s),
                 replacer := Pin (replacer s) frame_id\<rparr>))"

text \<open>The result is the frame the returned \<^verbatim>\<open>Page *\<close> points to.\<close>

definition FetchPageImpl :: "BufferPoolManager \<Rightarrow> page_id_t \<Rightarrow> error + (frame_id_t option \<times> BufferPoolManager)" where
  "FetchPageImpl s p =
     (case GetFrameIdByPageId s p of
        Some frame_id \<Rightarrow> Inr (Some frame_id, s\<lparr>replacer := Pin (replacer s) frame_id\<rparr>)
      | None \<Rightarrow>
          (case Fetch_replacement s of
             Inl e \<Rightarrow> Inl e
           | Inr (None, s1) \<Rightarrow> Inr (None, s1)
           | Inr (Some frame_id, s1) \<Rightarrow> Fetch_install s1 p frame_id))"

definition UnpinPageImpl :: "BufferPoolManager \<Rightarrow> page_id_t \<Rightarrow> bool \<Rightarrow> error + (bool \<times> BufferPoolManager)" where
  "UnpinPageImpl s p dirty =
     (case GetFrameIdByPageId s p of
        None \<Rightarrow> Inr (False, s)
      | Some frame_id \<Rightarrow>
          (case GetPage s frame_id of
             Inl e \<Rightarrow> Inl e
           | Inr page \<Rightarrow>
               (let old_pin_count = pin_count page in
                (case (if old_pin_count = 1 then
                         (case Unpin (replacer s) frame_id of
                            Inl e \<Rightarrow> Inl e
                          | Inr r \<Rightarrow> Inr (page\<lparr>pin_count := 0\<rparr>, r))
                       else if old_pin_count > 1 then
                         Inr (page\<lparr>pin_count := pin_count page - 1\<rparr>, replacer s)
                       else Inr (page, replacer s)) of
                   Inl e \<Rightarrow> Inl e
                 | Inr (page1, r) \<Rightarrow>
                     Inr (if old_pin_count \<le> 0 then False else True,
                          s\<lparr>pages_arr := (pages_arr s)[frame_id := page1\<lparr>is_dirty := dirty\<rparr>],
                            replacer := r\<rparr>)))))"

definition FlushPageImpl :: "BufferPoolManager \<Rightarrow> page_id_t \<Rightarrow> error + (bool \<times> BufferPoolManager)" where
  "FlushPageImpl s p =
     (case GetFrameIdByPageId s p of
        None \<Rightarrow> Inr (False, s)
      | Some frame_id \<Rightarrow>
          (case GetPage s frame_id of
             Inl e \<Rightarrow> Inl e
           | Inr page \<Rightarrow>
               Inr (True, s\<lparr>disk_manager := WritePage (disk_manager s) p (data page)\<rparr>)))"

text \<open>
  \<^verbatim>\<open>NewPageImpl\<close>, lines 143 to 145: the first entry of the page table, in iteration
  order, whose frame has a pin count that is not positive.
\<close>

fun find_unpinned :: "Page list \<Rightarrow> (page_id_t \<times> frame_id_t) list \<Rightarrow> error + (page_id_t \<times> frame_id_t) option" where
  "find_unpinned ps [] = Inr None"
| "find_unpinned ps (kv # rest) =
     (if snd kv < length ps then
        (if pin_count (ps ! snd kv) \<le> 0 then Inr (Some kv) else find_unpinned ps rest)
      else Inl Out_Of_Bounds)"

text \<open>Lines 141 to 149: true when \<^verbatim>\<open>NewPageImpl\<close> gives up before allocating.\<close>

definition New_all_pinned :: "BufferPoolManager \<Rightarrow> error + bool" where
  "New_all_pinned s =
     (if length (page_table s) \<ge> pool_size s then
        (case find_unpinned (pages_arr s) (page_table s) of
           Inl e \<Rightarrow> Inl e
         | Inr None \<Rightarrow> Inr True
         | Inr (Some pos) \<Rightarrow> Inr False)
      else Inr False)"

text \<open>
  Lines 155 to 165: the frame and \<^verbatim>\<open>old_page_id\<close>, which stays unwritten (\<open>None\<close>) when
  the frame comes from the free list. The result of \<^verbatim>\<open>Victim\<close> is not tested: when it
  is false, the search of the page table compares its first entry with a \<^verbatim>\<open>frame_id\<close>
  that was never written, or, on an empty page table, returns \<^verbatim>\<open>end()\<close>, which is
  then dereferenced.
\<close>

definition New_replacement :: "BufferPoolManager \<Rightarrow> error + (frame_id_t \<times> page_id_t option \<times> BufferPoolManager)" where
  "New_replacement s =
     (if free_list s \<noteq> [] then
        Inr (hd (free_list s), None, s\<lparr>free_list := tl (free_list s)\<rparr>)
      else
        (case Victim (replacer s) of
           (None, r) \<Rightarrow>
             (if page_table s = [] then Inl Deref_End else Inl Uninitialized_Read)
         | (Some frame_id, r) \<Rightarrow>
             (case find_frame (page_table s) frame_id of
                None \<Rightarrow> Inl Deref_End
              | Some pos \<Rightarrow> Inr (frame_id, Some (fst pos), s\<lparr>replacer := r\<rparr>))))"

text \<open>
  The result is the new page identifier stored through the output parameter and the frame
  the returned \<^verbatim>\<open>Page *\<close> points to; \<open>None\<close> is the \<^verbatim>\<open>return nullptr\<close>, which leaves
  the output parameter alone.
\<close>

definition NewPageImpl :: "BufferPoolManager \<Rightarrow> error + ((page_id_t \<times> frame_id_t) option \<times> BufferPoolManager)" where
  "NewPageImpl s =
     (case New_all_pinned s of
        Inl e \<Rightarrow> Inl e
      | Inr True \<Rightarrow> Inr (None, s)
      | Inr False \<Rightarrow>
          (case AllocatePage (disk_manager s) of
             (new_id, d1) \<Rightarrow>
               (case New_replacement (s\<lparr>disk_manager := d1\<rparr>) of
                  Inl e \<Rightarrow> Inl e
                | Inr (frame_id, old_page_id, s1) \<Rightarrow>
                    (case GetPage s1 frame_id of
                       Inl e \<Rightarrow> Inl e
                     | Inr page \<Rightarrow>
                         (case (if is_dirty page then
                                  (case old_page_id of
                                     None \<Rightarrow> Inl Uninitialized_Read
                                   | Some old \<Rightarrow>
                                       Inr (ResetMemory page,
                                            WritePage (disk_manager s1) old (data page)))
                                else Inr (page, disk_manager s1)) of
                            Inl e \<Rightarrow> Inl e
                          | Inr (page1, d2) \<Rightarrow>
                              Inr (Some (new_id, frame_id),
                                   s1\<lparr>disk_manager := d2,
                                      page_table := AList.update new_id frame_id (page_table s1),
                                      pages_arr := (pages_arr s1)[frame_id :=
                                        page1\<lparr>pin_count := pin_count page1 + 1\<rparr>]\<rparr>))))))"

definition DeletePageImpl :: "BufferPoolManager \<Rightarrow> page_id_t \<Rightarrow> error + (bool \<times> BufferPoolManager)" where
  "DeletePageImpl s p =
     (let s0 = s\<lparr>disk_manager := DeallocatePage (disk_manager s) p\<rparr> in
      (case GetFrameIdByPageId s0 p of
         None \<Rightarrow> Inr (True, s0)
       | Some frame_id \<Rightarrow>
           (case GetPage s0 frame_id of
              Inl e \<Rightarrow> Inl e
            | Inr page \<Rightarrow>
                (if pin_count page > 0 then Inr (False, s0)
                 else
                   Inr (True,
                        s0\<lparr>page_table := remove1 (p, frame_id) (page_table s0),
                           pages_arr := (pages_arr s0)[frame_id := ResetMemory page],
                           free_list := free_list s0 @ [frame_id]\<rparr>)))))"

text \<open>\<^verbatim>\<open>FlushAllPagesImpl\<close>: one \<^verbatim>\<open>FlushPage\<close> for every key of the page table.\<close>

fun flush_each :: "BufferPoolManager \<Rightarrow> page_id_t list \<Rightarrow> error + BufferPoolManager" where
  "flush_each s [] = Inr s"
| "flush_each s (p # ps) =
     (case FlushPageImpl s p of
        Inl e \<Rightarrow> Inl e
      | Inr (b, s1) \<Rightarrow> flush_each s1 ps)"

definition FlushAllPagesImpl :: "BufferPoolManager \<Rightarrow> error + BufferPoolManager" where
  "FlushAllPagesImpl s = flush_each s (map fst (page_table s))"

subsection \<open>Sequences of operations\<close>

text \<open>
  The public operations take the latch and call the functions above. A sequence of calls
  stops at the first one with undefined behaviour.
\<close>

datatype op =
  FetchPage page_id_t
| UnpinPage page_id_t bool
| NewPage
| DeletePage page_id_t
| FlushPage page_id_t
| FlushAllPages

fun step :: "BufferPoolManager \<Rightarrow> op \<Rightarrow> error + BufferPoolManager" where
  "step s (FetchPage p) = map_sum id snd (FetchPageImpl s p)"
| "step s (UnpinPage p dirty) = map_sum id snd (UnpinPageImpl s p dirty)"
| "step s NewPage = map_sum id snd (NewPageImpl s)"
| "step s (DeletePage p) = map_sum id snd (DeletePageImpl s p)"
| "step s (FlushPage p) = map_sum id snd (FlushPageImpl s p)"
| "step s FlushAllPages = FlushAllPagesImpl s"

fun run :: "BufferPoolManager \<Rightarrow> op list \<Rightarrow> error + BufferPoolManager" where
  "run s [] = Inr s"
| "run s (x # xs) = (case step s x of Inl e \<Rightarrow> Inl e | Inr s1 \<Rightarrow> run s1 xs)"

subsection \<open>Example states\<close>

text \<open>A new pool of \<open>n\<close> frames over a disk whose pages are all zero.\<close>

definition fresh_pool :: "nat \<Rightarrow> BufferPoolManager" where
  "fresh_pool n = new_BufferPoolManager n (new_DiskManager (\<lambda>p. zeroed))"

text \<open>
  A pool of one frame that holds page 0, with the given pin count and dirty flag and the
  given list in the replacer. Nothing has been written to the disk.
\<close>

definition pool1 :: "int \<Rightarrow> bool \<Rightarrow> frame_id_t list \<Rightarrow> BufferPoolManager" where
  "pool1 pins dirty tracked =
     \<lparr>pool_size = 1,
      pages_arr = [\<lparr>data = zeroed, page_id = INVALID_PAGE_ID, pin_count = pins, is_dirty = dirty\<rparr>],
      replacer = \<lparr>pages = tracked, num_pages = 1\<rparr>,
      free_list = [],
      page_table = [(0, 0)],
      disk_manager = new_DiskManager (\<lambda>p. zeroed)\<rparr>"

text \<open>What a run leaves behind: the free list, the replacer's list, the pin counts, the page table.\<close>

definition frames_view :: "error + BufferPoolManager \<Rightarrow>
    error + (frame_id_t list \<times> frame_id_t list \<times> int list \<times> (page_id_t \<times> frame_id_t) list)" where
  "frames_view r =
     map_sum id (\<lambda>s. (free_list s, pages (replacer s), map pin_count (pages_arr s), page_table s)) r"

text \<open>The pages of the \<^verbatim>\<open>WritePage\<close> calls issued so far, in order.\<close>

definition written_pages :: "error + BufferPoolManager \<Rightarrow> error + page_id_t list" where
  "written_pages r = map_sum id (\<lambda>s. map fst (writes (disk_manager s))) r"

subsection \<open>Invariants of the runs without NewPage\<close>

text \<open>
  The frame array and the replacer have the pool's size; the page table has distinct keys
  and maps distinct pages to distinct frames; the free list and the replacer's list have no
  duplicates; every frame in use is below the pool size; no frame of the free list is
  mapped; every frame in the replacer is in the free list or mapped.
\<close>

definition frames_ok :: "BufferPoolManager \<Rightarrow> bool" where
  "frames_ok s \<longleftrightarrow>
     length (pages_arr s) = pool_size s \<and> num_pages (replacer s) = pool_size s \<and>
     distinct (map fst (page_table s)) \<and> distinct (map snd (page_table s)) \<and>
     distinct (free_list s) \<and> distinct (pages (replacer s)) \<and>
     set (free_list s) \<subseteq> {..< pool_size s} \<and>
     snd ` set (page_table s) \<subseteq> {..< pool_size s} \<and>
     set (free_list s) \<inter> snd ` set (page_table s) = {} \<and>
     set (pages (replacer s)) \<subseteq> set (free_list s) \<union> snd ` set (page_table s)"

text \<open>Every mapped page whose frame is in the replacer and dirty is in \<open>D\<close>.\<close>

definition dirty_ok :: "BufferPoolManager \<Rightarrow> page_id_t set \<Rightarrow> bool" where
  "dirty_ok s D \<longleftrightarrow>
     (\<forall>kv \<in> set (page_table s).
        snd kv \<in> set (pages (replacer s)) \<and> is_dirty (pages_arr s ! snd kv) \<longrightarrow> fst kv \<in> D)"

text \<open>The pages of the \<^verbatim>\<open>WritePage\<close> calls issued between the states \<open>s\<close> and \<open>s1\<close>.\<close>

definition issued :: "BufferPoolManager \<Rightarrow> BufferPoolManager \<Rightarrow> page_id_t list" where
  "issued s s1 = map fst (drop (length (writes (disk_manager s))) (writes (disk_manager s1)))"

text \<open>The pages that a sequence of calls passes to \<^verbatim>\<open>UnpinPage\<close> with the flag set.\<close>

definition dirtied :: "op list \<Rightarrow> page_id_t set" where
  "dirtied ops = {p. UnpinPage p True \<in> set ops}"

lemmas bpm_defs = new_BufferPoolManager_def new_LRUReplacer_def new_Page_def new_DiskManager_def
  FetchPageImpl_def Fetch_replacement_def Fetch_install_def UnpinPageImpl_def GetFrameIdByPageId_def
  GetPage_def Pin_def Unpin_def Victim_def find_frame_def ReadPage_def WritePage_def
  DeletePageImpl_def DeallocatePage_def FlushPageImpl_def NewPageImpl_def New_all_pinned_def
  New_replacement_def AllocatePage_def ResetMemory_def FlushAllPagesImpl_def

lemmas ex_defs = fresh_pool_def pool1_def

section \<open>Properties\<close>

subsection \<open>The replacer\<close>

lemma Unpin_tracked: "f \<in> set (pages r) \<Longrightarrow> Unpin r f = Inr r"
  by (simp add: Unpin_def)

lemma Unpin_total: "0 < num_pages r \<Longrightarrow> \<exists>r1. Unpin r f = Inr r1"
  by (auto simp: Unpin_def)

lemma Unpin_tracks: "Unpin r f = Inr r1 \<Longrightarrow> f \<in> set (pages r1) \<and> num_pages r1 = num_pages r"
  by (auto simp: Unpin_def split: if_splits)

text \<open>
  C9. For a replacer of capacity at least one, \<^verbatim>\<open>Unpin(frame_id)\<close> returns; on a tracked
  frame it changes nothing (the recency order is not refreshed), so a second \<^verbatim>\<open>Unpin\<close>
  of the same frame is a no-op; on an untracked frame with the list at capacity it drops the
  front element and appends the frame at the back, below capacity it only appends; and a
  replacer within its capacity stays within it.
\<close>

theorem LRUReplacer_Unpin_contract:
  assumes cap: "0 < num_pages r"
  shows "\<exists>r1. Unpin r f = Inr r1 \<and> num_pages r1 = num_pages r \<and>
           (f \<in> set (pages r) \<longrightarrow> r1 = r) \<and>
           Unpin r1 f = Inr r1 \<and>
           (f \<notin> set (pages r) \<and> num_pages r \<le> length (pages r) \<longrightarrow>
              pages r1 = tl (pages r) @ [f]) \<and>
           (f \<notin> set (pages r) \<and> length (pages r) < num_pages r \<longrightarrow>
              pages r1 = pages r @ [f]) \<and>
           (length (pages r) \<le> num_pages r \<longrightarrow> length (pages r1) \<le> num_pages r)"
proof -
  from cap obtain r1 where r1: "Unpin r f = Inr r1"
    using Unpin_total by blast
  have again: "Unpin r1 f = Inr r1"
    using Unpin_tracks [OF r1] Unpin_tracked by blast
  have same: "f \<in> set (pages r) \<longrightarrow> r1 = r"
    using r1 by (auto simp: Unpin_def)
  have full: "f \<notin> set (pages r) \<and> num_pages r \<le> length (pages r) \<longrightarrow>
      pages r1 = tl (pages r) @ [f]"
    using r1 cap by (auto simp: Unpin_def split: if_splits)
  have room: "f \<notin> set (pages r) \<and> length (pages r) < num_pages r \<longrightarrow>
      pages r1 = pages r @ [f]"
    using r1 by (auto simp: Unpin_def split: if_splits)
  have bound: "length (pages r) \<le> num_pages r \<longrightarrow> length (pages r1) \<le> num_pages r"
    using r1 cap by (auto simp: Unpin_def split: if_splits)
  show ?thesis
    using r1 again same full room bound Unpin_tracks [OF r1] by blast
qed

theorem LRUReplacer_Unpin_contract_witness:
  "Unpin \<lparr>pages = [4, 7], num_pages = 2\<rparr> 5 = Inr \<lparr>pages = [7, 5], num_pages = 2\<rparr> \<and>
   Unpin \<lparr>pages = [7, 5], num_pages = 2\<rparr> 5 = Inr \<lparr>pages = [7, 5], num_pages = 2\<rparr>"
proof -
  obtain r1 where r1: "Unpin \<lparr>pages = [4, 7], num_pages = 2\<rparr> 5 = Inr r1"
    "num_pages r1 = 2" "Unpin r1 5 = Inr r1" "pages r1 = [7, 5]"
    using LRUReplacer_Unpin_contract [of "\<lparr>pages = [4, 7], num_pages = 2\<rparr>" 5] by auto
  have "r1 = \<lparr>pages = [7, 5], num_pages = 2\<rparr>"
    using r1(2,4) by (cases r1) simp
  with r1(1,3) show ?thesis by simp
qed

subsection \<open>FetchPage on a resident page\<close>

lemma FetchPageImpl_hit:
  "GetFrameIdByPageId s p = Some f \<Longrightarrow>
   FetchPageImpl s p = Inr (Some f, s\<lparr>replacer := Pin (replacer s) f\<rparr>)"
  by (simp add: FetchPageImpl_def)

text \<open>
  C1. The hit path of \<^verbatim>\<open>FetchPageImpl\<close> pins the frame in the replacer and returns it,
  and leaves the pin count alone: after \<^verbatim>\<open>FetchPage(0)\<close> on a new pool of one frame the
  pin count of frame 0 is one, and a second \<^verbatim>\<open>FetchPage(0)\<close> returns frame 0 in the very
  same state, with the pin count still one.
\<close>

theorem FetchPage_hit_keeps_pin_count:
  "run (fresh_pool 1) [FetchPage 0] = Inr (pool1 1 False []) \<and>
   pin_count (pages_arr (pool1 1 False []) ! 0) = 1 \<and>
   FetchPageImpl (pool1 1 False []) 0 = Inr (Some 0, pool1 1 False [])"
  by (simp add: bpm_defs ex_defs)

subsection \<open>UnpinPage\<close>

text \<open>
  C2, as the claim states it, fails: after \<^verbatim>\<open>FetchPage(0); UnpinPage(0, true)\<close> the frame
  is dirty, and \<^verbatim>\<open>UnpinPage(0, false)\<close> clears the flag.
\<close>

theorem UnpinPage_false_clears_dirty:
  "run (fresh_pool 1) [FetchPage 0, UnpinPage 0 True] = Inr (pool1 0 True [0]) \<and>
   is_dirty (pages_arr (pool1 0 True [0]) ! 0) \<and>
   UnpinPageImpl (pool1 0 True [0]) 0 False = Inr (False, pool1 0 False [0]) \<and>
   \<not> is_dirty (pages_arr (pool1 0 False [0]) ! 0)"
  by (simp add: bpm_defs ex_defs)

text \<open>
  C2, amended. For every resident page (its frame inside the frame array, the replacer of
  capacity at least one) and every flag, \<^verbatim>\<open>UnpinPage(page_id, dirty_flag)\<close> returns and
  sets the frame's dirty flag to \<^verbatim>\<open>dirty_flag\<close>, whatever it was before.
\<close>

theorem UnpinPageImpl_sets_dirty:
  assumes res: "GetFrameIdByPageId s p = Some f"
    and rng: "f < length (pages_arr s)"
    and cap: "0 < num_pages (replacer s)"
  shows "\<exists>b s1. UnpinPageImpl s p dirty = Inr (b, s1) \<and>
           is_dirty (pages_arr s1 ! f) = dirty"
proof -
  obtain r1 where "Unpin (replacer s) f = Inr r1"
    using Unpin_total [OF cap] by blast
  then show ?thesis
    using res rng by (auto simp: UnpinPageImpl_def GetPage_def Let_def)
qed

theorem UnpinPageImpl_sets_dirty_witness:
  "\<exists>b s1. UnpinPageImpl (pool1 1 True []) 0 False = Inr (b, s1) \<and>
     is_dirty (pages_arr s1 ! 0) = False"
  using UnpinPageImpl_sets_dirty [of "pool1 1 True []" 0 0 False]
  by (simp add: bpm_defs ex_defs)

text \<open>
  C4, as the claim states it, fails: after \<^verbatim>\<open>FetchPage(0); UnpinPage(0, false)\<close> the pin
  count is zero and the frame is clean; \<^verbatim>\<open>UnpinPage(0, true)\<close> returns false and yet
  leaves the frame dirty.
\<close>

theorem UnpinPage_underflow_mutates:
  "run (fresh_pool 1) [FetchPage 0, UnpinPage 0 False] = Inr (pool1 0 False [0]) \<and>
   UnpinPageImpl (pool1 0 False [0]) 0 True = Inr (False, pool1 0 True [0]) \<and>
   pool1 0 True [0] \<noteq> pool1 0 False [0]"
  by (simp add: bpm_defs ex_defs)

text \<open>
  C4, amended. For every resident page whose frame has pin count zero on entry,
  \<^verbatim>\<open>UnpinPage(page_id, dirty_flag)\<close> returns false; the pin count, the page table, the
  free list, the replacer and the disk are unchanged, and the frame's dirty flag is set to
  \<^verbatim>\<open>dirty_flag\<close>.
\<close>

theorem UnpinPageImpl_underflow:
  assumes res: "GetFrameIdByPageId s p = Some f"
    and rng: "f < length (pages_arr s)"
    and pin: "pin_count (pages_arr s ! f) = 0"
  shows "UnpinPageImpl s p dirty =
           Inr (False, s\<lparr>pages_arr := (pages_arr s)[f := (pages_arr s ! f)\<lparr>is_dirty := dirty\<rparr>]\<rparr>)"
  using res rng pin by (simp add: UnpinPageImpl_def GetPage_def Let_def)

theorem UnpinPageImpl_underflow_witness:
  "UnpinPageImpl (pool1 0 False [0]) 0 True = Inr (False, pool1 0 True [0])"
  using UnpinPageImpl_underflow [of "pool1 0 False [0]" 0 0 True]
  by (simp add: bpm_defs ex_defs)

subsection \<open>FlushPage\<close>

text \<open>
  C8. If the page is not resident, \<^verbatim>\<open>FlushPage\<close> returns false and changes nothing. If it
  is resident (its frame inside the frame array), \<^verbatim>\<open>FlushPage\<close> returns true and appends
  exactly one \<^verbatim>\<open>WritePage\<close> of the frame's data to the log of writes, whatever the dirty
  flag; the frames, and so the dirty flag, the page table, the free list and the replacer
  stay as they were.
\<close>

theorem FlushPageImpl_contract:
  "(GetFrameIdByPageId s p = None \<longrightarrow> FlushPageImpl s p = Inr (False, s)) \<and>
   (\<forall>f. GetFrameIdByPageId s p = Some f \<and> f < length (pages_arr s) \<longrightarrow>
      (\<exists>s1. FlushPageImpl s p = Inr (True, s1) \<and>
         writes (disk_manager s1) = writes (disk_manager s) @ [(p, data (pages_arr s ! f))] \<and>
         pages_arr s1 = pages_arr s \<and>
         is_dirty (pages_arr s1 ! f) = is_dirty (pages_arr s ! f) \<and>
         page_table s1 = page_table s \<and> free_list s1 = free_list s \<and>
         replacer s1 = replacer s))"
  by (auto simp: FlushPageImpl_def GetPage_def WritePage_def)

theorem FlushPageImpl_contract_witness:
  "FlushPageImpl (pool1 0 True [0]) 0 =
     Inr (True, (pool1 0 True [0])\<lparr>disk_manager :=
        WritePage (new_DiskManager (\<lambda>p. zeroed)) 0 zeroed\<rparr>) \<and>
   FlushPageImpl (pool1 0 True [0]) 5 = Inr (False, pool1 0 True [0])"
  using FlushPageImpl_contract [of "pool1 0 True [0]" 0]
    FlushPageImpl_contract [of "pool1 0 True [0]" 5]
  by (simp add: bpm_defs ex_defs)

subsection \<open>DeletePage\<close>

lemma map_of_remove1_distinct:
  "distinct (map fst xs) \<Longrightarrow> map_of xs k = Some v \<Longrightarrow> map_of (remove1 (k, v) xs) k = None"
proof -
  assume d: "distinct (map fst xs)" and m: "map_of xs k = Some v"
  from d have "distinct xs" by (rule distinct_map [THEN iffD1, THEN conjunct1])
  then have s: "set (remove1 (k, v) xs) = set xs - {(k, v)}" by simp
  have "(k, v) \<in> set xs" using m by (rule map_of_SomeD)
  then have "\<And>w. (k, w) \<in> set xs \<Longrightarrow> w = v"
    using d eq_key_imp_eq_value by fastforce
  then have "k \<notin> fst ` set (remove1 (k, v) xs)"
    unfolding s by auto
  then show ?thesis by (simp add: map_of_eq_None_iff)
qed

text \<open>
  C10. For every state whose page table has distinct keys and in which page \<open>p\<close> is resident
  with pin count zero (its frame inside the frame array), the first \<^verbatim>\<open>DeletePage(p)\<close>
  returns true and leaves \<open>p\<close> not resident, and the second returns true and leaves the
  state as the first call left it.
\<close>

theorem DeletePageImpl_twice:
  assumes keys: "distinct (map fst (page_table s))"
    and res: "GetFrameIdByPageId s p = Some f"
    and rng: "f < length (pages_arr s)"
    and pin: "pin_count (pages_arr s ! f) = 0"
  shows "\<exists>s1. DeletePageImpl s p = Inr (True, s1) \<and>
           GetFrameIdByPageId s1 p = None \<and>
           DeletePageImpl s1 p = Inr (True, s1)"
proof -
  let ?s0 = "s\<lparr>disk_manager := DeallocatePage (disk_manager s) p\<rparr>"
  let ?s1 = "?s0\<lparr>page_table := remove1 (p, f) (page_table ?s0),
                  pages_arr := (pages_arr ?s0)[f := ResetMemory (pages_arr s ! f)],
                  free_list := free_list ?s0 @ [f]\<rparr>"
  have first: "DeletePageImpl s p = Inr (True, ?s1)"
    using res rng pin by (simp add: DeletePageImpl_def GetFrameIdByPageId_def GetPage_def Let_def)
  have gone: "GetFrameIdByPageId ?s1 p = None"
    using keys res by (simp add: GetFrameIdByPageId_def map_of_remove1_distinct)
  have second: "DeletePageImpl ?s1 p = Inr (True, ?s1)"
    using gone by (simp add: DeletePageImpl_def GetFrameIdByPageId_def Let_def DeallocatePage_def)
  from first gone second show ?thesis by blast
qed

theorem DeletePageImpl_twice_witness:
  "\<exists>s1. DeletePageImpl (pool1 0 False [0]) 0 = Inr (True, s1) \<and>
     page_table s1 = [] \<and> free_list s1 = [0] \<and>
     DeletePageImpl s1 0 = Inr (True, s1)"
  using DeletePageImpl_twice [of "pool1 0 False [0]" 0 0]
  by (auto simp: bpm_defs ex_defs)

subsection \<open>Free list, replacer and page table along a run\<close>

text \<open>
  C3. \<^verbatim>\<open>DeletePageImpl\<close> pushes the frame onto the free list and never removes it from
  the replacer: after \<^verbatim>\<open>FetchPage(0); UnpinPage(0, false); DeletePage(0)\<close> on a new
  pool of one frame, frame 0 is in the free list and in the replacer. A following
  \<^verbatim>\<open>NewPage\<close> takes it from the free list and pins it (pin count one) while the replacer
  still holds it.
\<close>

theorem DeletePage_leaves_frame_in_replacer:
  "frames_view (run (fresh_pool 1) [FetchPage 0, UnpinPage 0 False, DeletePage 0]) =
     Inr ([0], [0], [0], []) \<and>
   frames_view (run (fresh_pool 1) [FetchPage 0, UnpinPage 0 False, DeletePage 0, NewPage]) =
     Inr ([], [0], [1], [(0, 0)])"
  by (simp add: bpm_defs ex_defs frames_view_def)

text \<open>
  C5. After \<^verbatim>\<open>FetchPage(0); UnpinPage(0, false); FetchPage(0)\<close> on a new pool of one
  frame, page 0 is resident with pin count zero, the free list is empty and so is the
  replacer. There \<^verbatim>\<open>FetchPage(1)\<close> returns no frame, and \<^verbatim>\<open>NewPage\<close> passes its check,
  gets no victim and reads \<^verbatim>\<open>frame_id\<close> unwritten. The other way round, after
  \<^verbatim>\<open>FetchPage(0); UnpinPage(0, false); DeletePage(0); NewPage\<close> the only frame is pinned
  and the free list is empty, and \<^verbatim>\<open>FetchPage(7)\<close> still gets the frame.
\<close>

theorem OutOfFrames_with_unpinned_frame:
  "run (fresh_pool 1) [FetchPage 0, UnpinPage 0 False, FetchPage 0] = Inr (pool1 0 False []) \<and>
   FetchPageImpl (pool1 0 False []) 1 = Inr (None, pool1 0 False []) \<and>
   NewPageImpl (pool1 0 False []) = Inl Uninitialized_Read \<and>
   frames_view (run (fresh_pool 1) [FetchPage 0, UnpinPage 0 False, DeletePage 0, NewPage]) =
     Inr ([], [0], [1], [(0, 0)]) \<and>
   frames_view (run (fresh_pool 1)
       [FetchPage 0, UnpinPage 0 False, DeletePage 0, NewPage, FetchPage 7]) =
     Inr ([], [], [1], [(7, 0)])"
  by (simp add: bpm_defs ex_defs frames_view_def)

text \<open>
  C6. A new pool has an empty page table and all its frames, in order, in the free list.
  \<^verbatim>\<open>NewPageImpl\<close> looks up the victim's old page and never erases its entry: after
  \<^verbatim>\<open>NewPage; UnpinPage(0, false); NewPage\<close> on a new pool of one frame the page table
  has two entries, both for frame 0, and the free list is empty.
\<close>

theorem NewPage_keeps_old_mapping:
  "page_table (new_BufferPoolManager n d) = [] \<and>
   free_list (new_BufferPoolManager n d) = [0 ..< n] \<and>
   frames_view (run (fresh_pool 1) [NewPage, UnpinPage 0 False]) =
     Inr ([], [0], [0], [(0, 0)]) \<and>
   frames_view (run (fresh_pool 1) [NewPage, UnpinPage 0 False, NewPage]) =
     Inr ([], [], [1], [(0, 0), (1, 0)]) \<and>
   length [(0 :: page_id_t, 0 :: frame_id_t), (1, 0)] + length ([] :: frame_id_t list) \<noteq> 1"
  by (simp add: bpm_defs ex_defs frames_view_def)

subsection \<open>Writes to the disk\<close>

text \<open>
  C7, as the claim states it, fails: \<^verbatim>\<open>FetchPage(0); FlushPage(0)\<close> writes page 0, which
  was never unpinned at all, and so does \<^verbatim>\<open>FetchPage(0); FlushAllPages\<close>.
\<close>

theorem FlushPage_writes_clean_page:
  "written_pages (run (fresh_pool 1) [FetchPage 0, FlushPage 0]) = Inr [0] \<and>
   UnpinPage 0 True \<notin> set [FetchPage 0, FlushPage 0] \<and>
   written_pages (run (fresh_pool 1) [FetchPage 0, FlushAllPages]) = Inr [0] \<and>
   UnpinPage 0 True \<notin> set [FetchPage 0, FlushAllPages]"
  by (simp add: bpm_defs ex_defs written_pages_def)

lemma frames_ok_disk [simp]: "frames_ok (s\<lparr>disk_manager := d\<rparr>) = frames_ok s"
  by (simp add: frames_ok_def)

lemma dirty_ok_disk [simp]: "dirty_ok (s\<lparr>disk_manager := d\<rparr>) D = dirty_ok s D"
  by (simp add: dirty_ok_def)

lemma dirty_ok_mono: "dirty_ok s D \<Longrightarrow> D \<subseteq> E \<Longrightarrow> dirty_ok s E"
  by (auto simp: dirty_ok_def)

lemma resident_in_range:
  "frames_ok s \<Longrightarrow> map_of (page_table s) p = Some f \<Longrightarrow>
   f < length (pages_arr s) \<and> (p, f) \<in> set (page_table s) \<and> 0 < num_pages (replacer s)"
proof -
  assume ok: "frames_ok s" and m: "map_of (page_table s) p = Some f"
  from m have i: "(p, f) \<in> set (page_table s)" by (rule map_of_SomeD)
  then have "f \<in> snd ` set (page_table s)" by force
  with ok have "f < pool_size s" by (auto simp: frames_ok_def)
  with ok i show ?thesis by (simp add: frames_ok_def)
qed

lemma same_frame_same_page:
  "distinct (map snd xs) \<Longrightarrow> (p, f) \<in> set xs \<Longrightarrow> (q, f) \<in> set xs \<Longrightarrow> q = p"
  by (induction xs) force+

lemma Unpin_pages:
  "Unpin r f = Inr r1 \<Longrightarrow> distinct (pages r) \<Longrightarrow>
   distinct (pages r1) \<and> set (pages r1) \<subseteq> insert f (set (pages r)) \<and> num_pages r1 = num_pages r"
  by (cases "pages r") (auto simp: Unpin_def split: if_splits)

lemma UnpinPageImpl_result:
  assumes ok: "frames_ok s" and m: "map_of (page_table s) p = Some f"
  shows "\<exists>b r pg. UnpinPageImpl s p dirty =
            Inr (b, s\<lparr>pages_arr := (pages_arr s)[f := pg], replacer := r\<rparr>) \<and>
          is_dirty pg = dirty \<and> distinct (pages r) \<and>
          set (pages r) \<subseteq> insert f (set (pages (replacer s))) \<and>
          num_pages r = num_pages (replacer s)"
proof -
  from resident_in_range [OF ok m]
  have rng: "f < length (pages_arr s)" and cap: "0 < num_pages (replacer s)" by simp_all
  from ok have d: "distinct (pages (replacer s))" by (simp add: frames_ok_def)
  obtain r1 where r1: "Unpin (replacer s) f = Inr r1"
    using Unpin_total [OF cap] by blast
  note u = Unpin_pages [OF r1 d]
  let ?pg = "pages_arr s ! f"
  have "pin_count ?pg = 1 \<or> pin_count ?pg > 1 \<or> pin_count ?pg \<le> 0" by arith
  then show ?thesis
  proof (elim disjE)
    assume c: "pin_count ?pg = 1"
    have "UnpinPageImpl s p dirty = Inr (True,
        s\<lparr>pages_arr := (pages_arr s)[f := ?pg\<lparr>pin_count := 0, is_dirty := dirty\<rparr>],
          replacer := r1\<rparr>)"
      using m rng c r1 by (simp add: UnpinPageImpl_def GetFrameIdByPageId_def GetPage_def Let_def)
    then show ?thesis
      apply (rule_tac x = True in exI)
      apply (rule_tac x = r1 in exI)
      apply (rule_tac x = "?pg\<lparr>pin_count := 0, is_dirty := dirty\<rparr>" in exI)
      using u by simp
  next
    assume c: "pin_count ?pg > 1"
    have "UnpinPageImpl s p dirty = Inr (True,
        s\<lparr>pages_arr := (pages_arr s)[f := ?pg\<lparr>pin_count := pin_count ?pg - 1, is_dirty := dirty\<rparr>],
          replacer := replacer s\<rparr>)"
      using m rng c by (simp add: UnpinPageImpl_def GetFrameIdByPageId_def GetPage_def Let_def)
    then show ?thesis
      apply (rule_tac x = True in exI)
      apply (rule_tac x = "replacer s" in exI)
      apply (rule_tac x = "?pg\<lparr>pin_count := pin_count ?pg - 1, is_dirty := dirty\<rparr>" in exI)
      using d by auto
  next
    assume c: "pin_count ?pg \<le> 0"
    have "UnpinPageImpl s p dirty = Inr (False,
        s\<lparr>pages_arr := (pages_arr s)[f := ?pg\<lparr>is_dirty := dirty\<rparr>],
          replacer := replacer s\<rparr>)"
      using m rng c by (simp add: UnpinPageImpl_def GetFrameIdByPageId_def GetPage_def Let_def)
    then show ?thesis
      apply (rule_tac x = False in exI)
      apply (rule_tac x = "replacer s" in exI)
      apply (rule_tac x = "?pg\<lparr>is_dirty := dirty\<rparr>" in exI)
      using d by auto
  qed
qed

lemma UnpinPage_inv:
  assumes ok: "frames_ok s" and dk: "dirty_ok s D"
  shows "\<exists>s1. step s (UnpinPage p dirty) = Inr s1 \<and> frames_ok s1 \<and>
           dirty_ok s1 (D \<union> dirtied [UnpinPage p dirty]) \<and> issued s s1 = []"
proof (cases "map_of (page_table s) p")
  case None
  then have "step s (UnpinPage p dirty) = Inr s"
    by (simp add: UnpinPageImpl_def GetFrameIdByPageId_def)
  with ok dk show ?thesis by (auto intro: dirty_ok_mono simp: issued_def)
next
  case (Some f)
  from UnpinPageImpl_result [OF ok Some, of dirty] obtain b r pg where
    res: "UnpinPageImpl s p dirty = Inr (b, s\<lparr>pages_arr := (pages_arr s)[f := pg], replacer := r\<rparr>)"
    and pg: "is_dirty pg = dirty" and dr: "distinct (pages r)"
    and sr: "set (pages r) \<subseteq> insert f (set (pages (replacer s)))"
    and nr: "num_pages r = num_pages (replacer s)" by blast
  let ?s1 = "s\<lparr>pages_arr := (pages_arr s)[f := pg], replacer := r\<rparr>"
  from resident_in_range [OF ok Some]
  have rng: "f < length (pages_arr s)" and mem: "(p, f) \<in> set (page_table s)" by simp_all
  have st: "step s (UnpinPage p dirty) = Inr ?s1" using res by simp
  have f_in: "f \<in> snd ` set (page_table s)" using mem by force
  have ok1: "frames_ok ?s1"
    using ok dr sr nr f_in unfolding frames_ok_def by auto
  have dk1: "dirty_ok ?s1 (D \<union> dirtied [UnpinPage p dirty])"
    unfolding dirty_ok_def
  proof
    fix kv assume kv: "kv \<in> set (page_table ?s1)"
    show "snd kv \<in> set (pages (replacer ?s1)) \<and> is_dirty (pages_arr ?s1 ! snd kv) \<longrightarrow>
        fst kv \<in> D \<union> dirtied [UnpinPage p dirty]"
    proof (cases "snd kv = f")
      case True
      with kv mem ok have "fst kv = p"
        using same_frame_same_page [of "page_table s" p f "fst kv"]
        by (cases kv) (auto simp: frames_ok_def)
      with True rng pg show ?thesis by (auto simp: dirtied_def)
    next
      case False
      with kv sr dk show ?thesis by (auto simp: dirty_ok_def)
    qed
  qed
  have "issued s ?s1 = []" by (simp add: issued_def)
  with st ok1 dk1 show ?thesis by (intro exI [of _ ?s1] conjI)
qed

lemma distinct_map_remove1: "distinct (map g xs) \<Longrightarrow> distinct (map g (remove1 x xs))"
proof (induction xs)
  case Nil
  then show ?case by simp
next
  case (Cons a xs)
  have sub: "g ` set (remove1 x xs) \<subseteq> g ` set xs"
    by (rule image_mono) (rule set_remove1_subset)
  from Cons.prems have "g a \<notin> g ` set xs" and "distinct (map g xs)" by simp_all
  with sub Cons.IH show ?case by (cases "x = a") auto
qed

lemma snd_set_remove1:
  assumes d: "distinct (map snd xs)" and m: "(q, f) \<in> set xs"
  shows "snd ` set (remove1 (q, f) xs) = snd ` set xs - {f}"
proof -
  from d have "distinct xs" by (rule distinct_map [THEN iffD1, THEN conjunct1])
  then have s: "set (remove1 (q, f) xs) = set xs - {(q, f)}" by simp
  have only: "\<And>k. (k, f) \<in> set xs \<Longrightarrow> k = q"
    using same_frame_same_page [OF d m] by blast
  show ?thesis
  proof (rule set_eqI)
    fix g
    show "g \<in> snd ` set (remove1 (q, f) xs) \<longleftrightarrow> g \<in> snd ` set xs - {f}"
    proof
      assume "g \<in> snd ` set (remove1 (q, f) xs)"
      then obtain kv where kv: "kv \<in> set xs" "kv \<noteq> (q, f)" "snd kv = g"
        unfolding s by auto
      then have mem: "(fst kv, g) \<in> set xs" by (metis prod.collapse)
      have "g \<noteq> f"
      proof
        assume "g = f"
        with mem only have "fst kv = q" by simp
        with kv \<open>g = f\<close> show False by (metis prod.collapse)
      qed
      with mem show "g \<in> snd ` set xs - {f}" by force
    next
      assume "g \<in> snd ` set xs - {f}"
      then obtain k where "(k, g) \<in> set xs" "g \<noteq> f" by auto
      then have "(k, g) \<in> set xs - {(q, f)}" by simp
      then show "g \<in> snd ` set (remove1 (q, f) xs)"
        unfolding s by (rule image_eqI [rotated]) simp
    qed
  qed
qed

lemma FlushPage_inv:
  assumes ok: "frames_ok s"
  shows "\<exists>b d. FlushPageImpl s p = Inr (b, s\<lparr>disk_manager := d\<rparr>)"
proof (cases "map_of (page_table s) p")
  case None
  then have "FlushPageImpl s p = Inr (False, s\<lparr>disk_manager := disk_manager s\<rparr>)"
    by (simp add: FlushPageImpl_def GetFrameIdByPageId_def)
  then show ?thesis by (intro exI)
next
  case (Some f)
  with resident_in_range [OF ok Some]
  have "FlushPageImpl s p = Inr (True,
      s\<lparr>disk_manager := WritePage (disk_manager s) p (data (pages_arr s ! f))\<rparr>)"
    by (simp add: FlushPageImpl_def GetFrameIdByPageId_def GetPage_def)
  then show ?thesis by (intro exI)
qed

lemma flush_each_inv:
  "frames_ok s \<Longrightarrow> \<exists>d. flush_each s ps = Inr (s\<lparr>disk_manager := d\<rparr>)"
proof (induction ps arbitrary: s)
  case Nil
  have "flush_each s [] = Inr (s\<lparr>disk_manager := disk_manager s\<rparr>)" by simp
  then show ?case by (intro exI)
next
  case (Cons p ps)
  from FlushPage_inv [OF Cons.prems, of p] obtain b d where
    f: "FlushPageImpl s p = Inr (b, s\<lparr>disk_manager := d\<rparr>)" by (elim exE)
  have "frames_ok (s\<lparr>disk_manager := d\<rparr>)" using Cons.prems by simp
  from Cons.IH [OF this] obtain d1 where
    "flush_each (s\<lparr>disk_manager := d\<rparr>) ps = Inr (s\<lparr>disk_manager := d, disk_manager := d1\<rparr>)"
    by (elim exE)
  with f have "flush_each s (p # ps) = Inr (s\<lparr>disk_manager := d1\<rparr>)" by simp
  then show ?case by (intro exI)
qed

lemma DeletePage_inv:
  assumes ok: "frames_ok s" and dk: "dirty_ok s D"
  shows "\<exists>s1. step s (DeletePage p) = Inr s1 \<and> frames_ok s1 \<and> dirty_ok s1 D \<and>
           issued s s1 = []"
proof (cases "map_of (page_table s) p")
  case None
  then have "step s (DeletePage p) = Inr (s\<lparr>disk_manager := DeallocatePage (disk_manager s) p\<rparr>)"
    by (simp add: DeletePageImpl_def GetFrameIdByPageId_def Let_def)
  with ok dk show ?thesis by (simp add: issued_def DeallocatePage_def)
next
  case (Some f)
  from resident_in_range [OF ok Some]
  have rng: "f < length (pages_arr s)" and mem: "(p, f) \<in> set (page_table s)" by simp_all
  let ?s0 = "s\<lparr>disk_manager := DeallocatePage (disk_manager s) p\<rparr>"
  show ?thesis
  proof (cases "pin_count (pages_arr s ! f) > 0")
    case True
    then have "step s (DeletePage p) = Inr ?s0"
      using Some rng by (simp add: DeletePageImpl_def GetFrameIdByPageId_def GetPage_def Let_def)
    with ok dk show ?thesis by (simp add: issued_def DeallocatePage_def)
  next
    case False
    let ?s1 = "?s0\<lparr>page_table := remove1 (p, f) (page_table s),
                    pages_arr := (pages_arr s)[f := ResetMemory (pages_arr s ! f)],
                    free_list := free_list s @ [f]\<rparr>"
    have st: "step s (DeletePage p) = Inr ?s1"
      using Some rng False
      by (simp add: DeletePageImpl_def GetFrameIdByPageId_def GetPage_def Let_def)
    from ok have ds: "distinct (map snd (page_table s))" by (simp add: frames_ok_def)
    note sn = snd_set_remove1 [OF ds mem]
    have f_in: "f \<in> snd ` set (page_table s)" using mem by force
    have ok1: "frames_ok ?s1"
      using ok f_in unfolding frames_ok_def
      by (auto simp: sn distinct_map_remove1)
    have sub: "set (remove1 (p, f) (page_table s)) \<subseteq> set (page_table s)"
      by (rule set_remove1_subset)
    have same: "\<And>g. is_dirty ((pages_arr s)[f := ResetMemory (pages_arr s ! f)] ! g) =
        is_dirty (pages_arr s ! g)"
      using rng by (simp add: nth_list_update ResetMemory_def)
    have dk1: "dirty_ok ?s1 D"
      using dk sub unfolding dirty_ok_def by (auto simp: same)
    have "issued s ?s1 = []" by (simp add: issued_def DeallocatePage_def)
    with st ok1 dk1 show ?thesis by (intro exI [of _ ?s1] conjI)
  qed
qed

lemma AList_update_fresh: "k \<notin> fst ` set al \<Longrightarrow> AList.update k v al = al @ [(k, v)]"
  by (induction al) auto

lemma find_frame_Some:
  "f \<in> snd ` set pt \<Longrightarrow> \<exists>q. find_frame pt f = Some (q, f) \<and> (q, f) \<in> set pt"
  unfolding find_frame_def by (induction pt) auto

lemma Pin_pages:
  "distinct (pages r) \<Longrightarrow>
   distinct (pages (Pin r f)) \<and> set (pages (Pin r f)) = set (pages r) - {f} \<and>
   num_pages (Pin r f) = num_pages r"
  by (simp add: Pin_def)

lemma issued_same [simp]: "disk_manager s1 = disk_manager s \<Longrightarrow> issued s s1 = []"
  by (simp add: issued_def)

lemma Fetch_install_inv:
  assumes ok: "frames_ok (s\<lparr>replacer := Pin (replacer s) f\<rparr>)"
    and dr: "distinct (pages (replacer s))"
    and dk: "dirty_ok s D"
    and rng: "f < pool_size s"
    and nf: "f \<notin> set (free_list s)"
    and nt: "f \<notin> snd ` set (page_table s)"
    and np: "p \<notin> fst ` set (page_table s)"
  shows "\<exists>s1. Fetch_install s p f = Inr (Some f, s1) \<and> frames_ok s1 \<and> dirty_ok s1 D \<and>
           disk_manager s1 = disk_manager s"
proof -
  let ?pg = "(pages_arr s ! f)\<lparr>data := ReadPage (disk_manager s) p,
      pin_count := (if pin_count (pages_arr s ! f) \<le> 0 then 1 else pin_count (pages_arr s ! f))\<rparr>"
  let ?s1 = "s\<lparr>pages_arr := (pages_arr s)[f := ?pg],
               page_table := page_table s @ [(p, f)],
               replacer := Pin (replacer s) f\<rparr>"
  from ok rng have len: "f < length (pages_arr s)" by (simp add: frames_ok_def)
  have res: "Fetch_install s p f = Inr (Some f, ?s1)"
    using len np by (simp add: Fetch_install_def GetPage_def AList_update_fresh)
  note pin = Pin_pages [OF dr, of f]
  have ok1: "frames_ok ?s1"
    using ok rng nf nt np unfolding frames_ok_def by auto
  have dk1: "dirty_ok ?s1 D"
    unfolding dirty_ok_def
  proof
    fix kv assume kv: "kv \<in> set (page_table ?s1)"
    show "snd kv \<in> set (pages (replacer ?s1)) \<and> is_dirty (pages_arr ?s1 ! snd kv) \<longrightarrow> fst kv \<in> D"
    proof (cases "kv = (p, f)")
      case True
      with pin show ?thesis by simp
    next
      case False
      with kv have old: "kv \<in> set (page_table s)" by simp
      with nt have "snd kv \<noteq> f" by force
      with old dk pin show ?thesis by (auto simp: dirty_ok_def)
    qed
  qed
  from res ok1 dk1 show ?thesis by simp
qed

lemma FetchPage_hit_inv:
  assumes ok: "frames_ok s" and dk: "dirty_ok s D" and m: "map_of (page_table s) p = Some f"
  shows "\<exists>s1. step s (FetchPage p) = Inr s1 \<and> frames_ok s1 \<and> dirty_ok s1 D \<and>
           set (issued s s1) \<subseteq> D"
proof -
  let ?s1 = "s\<lparr>replacer := Pin (replacer s) f\<rparr>"
  have st: "step s (FetchPage p) = Inr ?s1"
    using m by (simp add: FetchPageImpl_def GetFrameIdByPageId_def)
  from ok have dr: "distinct (pages (replacer s))" by (simp add: frames_ok_def)
  note pin = Pin_pages [OF dr, of f]
  have ok1: "frames_ok ?s1" using ok pin unfolding frames_ok_def by auto
  have dk1: "dirty_ok ?s1 D" using dk pin unfolding dirty_ok_def by auto
  from st ok1 dk1 show ?thesis by simp
qed

lemma FetchPage_free_inv:
  assumes ok: "frames_ok s" and dk: "dirty_ok s D" and m: "map_of (page_table s) p = None"
    and fl: "free_list s = f # rest"
  shows "\<exists>s1. step s (FetchPage p) = Inr s1 \<and> frames_ok s1 \<and> dirty_ok s1 D \<and>
           set (issued s s1) \<subseteq> D"
proof -
  let ?s0 = "s\<lparr>free_list := rest\<rparr>"
  have rep: "Fetch_replacement s = Inr (Some f, ?s0)"
    using fl by (simp add: Fetch_replacement_def)
  from ok have dr: "distinct (pages (replacer s))" by (simp add: frames_ok_def)
  note pin = Pin_pages [OF dr, of f]
  from m have np: "p \<notin> fst ` set (page_table ?s0)" by (simp add: map_of_eq_None_iff)
  from ok fl have rng: "f < pool_size ?s0" and nf: "f \<notin> set (free_list ?s0)"
    and nt: "f \<notin> snd ` set (page_table ?s0)"
    unfolding frames_ok_def by auto
  have ok0: "frames_ok (?s0\<lparr>replacer := Pin (replacer ?s0) f\<rparr>)"
    using ok fl pin unfolding frames_ok_def by auto
  have dk0: "dirty_ok ?s0 D" using dk by (simp add: dirty_ok_def)
  have dr0: "distinct (pages (replacer ?s0))" using dr by simp
  from Fetch_install_inv [OF ok0 dr0 dk0 rng nf nt np] obtain s1 where
    s1: "Fetch_install ?s0 p f = Inr (Some f, s1)" "frames_ok s1" "dirty_ok s1 D"
      "disk_manager s1 = disk_manager ?s0" by (elim exE conjE)
  have st: "step s (FetchPage p) = Inr s1"
    using m rep s1(1) by (simp add: FetchPageImpl_def GetFrameIdByPageId_def)
  have "issued s s1 = []" using s1(4) by simp
  with st s1 show ?thesis by simp
qed

lemma FetchPage_none_inv:
  assumes ok: "frames_ok s" and dk: "dirty_ok s D" and m: "map_of (page_table s) p = None"
    and fl: "free_list s = []" and rp: "pages (replacer s) = []"
  shows "\<exists>s1. step s (FetchPage p) = Inr s1 \<and> frames_ok s1 \<and> dirty_ok s1 D \<and>
           set (issued s s1) \<subseteq> D"
proof -
  have st: "step s (FetchPage p) = Inr s"
    using m fl rp
    by (simp add: FetchPageImpl_def GetFrameIdByPageId_def Fetch_replacement_def Victim_def)
  with ok dk show ?thesis by simp
qed

lemma FetchPage_victim_inv:
  assumes ok: "frames_ok s" and dk: "dirty_ok s D" and m: "map_of (page_table s) p = None"
    and fl: "free_list s = []" and rp: "pages (replacer s) = f # rest"
  shows "\<exists>s1. step s (FetchPage p) = Inr s1 \<and> frames_ok s1 \<and> dirty_ok s1 D \<and>
           set (issued s s1) \<subseteq> D"
proof -
  from ok fl rp have f_in: "f \<in> snd ` set (page_table s)" unfolding frames_ok_def by auto
  from find_frame_Some [OF f_in] obtain q where
    fq: "find_frame (page_table s) f = Some (q, f)" and mem: "(q, f) \<in> set (page_table s)"
    by (elim exE conjE)
  from ok f_in have rng: "f < pool_size s" and len: "f < length (pages_arr s)"
    unfolding frames_ok_def by auto
  let ?old = "pages_arr s ! f"
  let ?d = "if is_dirty ?old then WritePage (disk_manager s) q (data ?old) else disk_manager s"
  let ?s0 = "s\<lparr>replacer := (replacer s)\<lparr>pages := rest\<rparr>,
               disk_manager := ?d,
               page_table := remove1 (q, f) (page_table s),
               pages_arr := (pages_arr s)[f := ResetMemory ?old]\<rparr>"
  have rep: "Fetch_replacement s = Inr (Some f, ?s0)"
    using fl rp fq len by (simp add: Fetch_replacement_def Victim_def GetPage_def)
  from ok have ds: "distinct (map snd (page_table s))" and dr: "distinct (pages (replacer s))"
    by (simp_all add: frames_ok_def)
  note sn = snd_set_remove1 [OF ds mem]
  have sub: "set (remove1 (q, f) (page_table s)) \<subseteq> set (page_table s)"
    by (rule set_remove1_subset)
  from dr rp have f_rest: "f \<notin> set rest" and d_rest: "distinct rest" by simp_all
  have pin0: "Pin (replacer ?s0) f = replacer ?s0"
    using f_rest by (simp add: Pin_def)
  have ok0: "frames_ok (?s0\<lparr>replacer := Pin (replacer ?s0) f\<rparr>)"
    unfolding pin0 using ok fl rp f_rest d_rest unfolding frames_ok_def
    by (auto simp: sn distinct_map_remove1)
  have dr0: "distinct (pages (replacer ?s0))" using d_rest by simp
  have same: "\<And>g. is_dirty ((pages_arr s)[f := ResetMemory ?old] ! g) = is_dirty (pages_arr s ! g)"
    using len by (simp add: nth_list_update ResetMemory_def)
  have dk0: "dirty_ok ?s0 D"
    using dk sub rp unfolding dirty_ok_def by (auto simp: same)
  have rng0: "f < pool_size ?s0" using rng by simp
  have nf0: "f \<notin> set (free_list ?s0)" using fl by simp
  have nt0: "f \<notin> snd ` set (page_table ?s0)" by (simp add: sn)
  from m have "p \<notin> fst ` set (page_table s)" by (simp add: map_of_eq_None_iff)
  with sub have np0: "p \<notin> fst ` set (page_table ?s0)" by auto
  from Fetch_install_inv [OF ok0 dr0 dk0 rng0 nf0 nt0 np0] obtain s1 where
    s1: "Fetch_install ?s0 p f = Inr (Some f, s1)" "frames_ok s1" "dirty_ok s1 D"
      "disk_manager s1 = disk_manager ?s0" by (elim exE conjE)
  have st: "step s (FetchPage p) = Inr s1"
    using m rep s1(1) by (simp add: FetchPageImpl_def GetFrameIdByPageId_def)
  have wr: "is_dirty ?old \<longrightarrow> q \<in> D"
    using dk mem rp unfolding dirty_ok_def by force
  have "set (issued s s1) \<subseteq> D"
    using s1(4) wr by (simp add: issued_def WritePage_def)
  with st s1 show ?thesis by simp
qed

lemma FetchPage_inv:
  assumes ok: "frames_ok s" and dk: "dirty_ok s D"
  shows "\<exists>s1. step s (FetchPage p) = Inr s1 \<and> frames_ok s1 \<and> dirty_ok s1 D \<and>
           set (issued s s1) \<subseteq> D"
proof (cases "map_of (page_table s) p")
  case (Some f)
  with ok dk show ?thesis by (rule FetchPage_hit_inv)
next
  case None
  show ?thesis
  proof (cases "free_list s")
    case (Cons f rest)
    with ok dk None show ?thesis by (rule FetchPage_free_inv)
  next
    case Nil
    show ?thesis
    proof (cases "pages (replacer s)")
      case (Cons f rest)
      with ok dk None Nil show ?thesis by (rule FetchPage_victim_inv)
    next
      case N2: Nil
      with ok dk None Nil show ?thesis by (rule FetchPage_none_inv)
    qed
  qed
qed

lemma FlushPage_step_inv:
  assumes ok: "frames_ok s" and dk: "dirty_ok s D"
  shows "\<exists>s1. step s (FlushPage p) = Inr s1 \<and> frames_ok s1 \<and> dirty_ok s1 D"
proof -
  from FlushPage_inv [OF ok, of p] obtain b d where
    "FlushPageImpl s p = Inr (b, s\<lparr>disk_manager := d\<rparr>)" by (elim exE)
  then have "step s (FlushPage p) = Inr (s\<lparr>disk_manager := d\<rparr>)" by simp
  with ok dk show ?thesis by simp
qed

lemma FlushAllPages_step_inv:
  assumes ok: "frames_ok s" and dk: "dirty_ok s D"
  shows "\<exists>s1. step s FlushAllPages = Inr s1 \<and> frames_ok s1 \<and> dirty_ok s1 D"
proof -
  from flush_each_inv [OF ok, of "map fst (page_table s)"] obtain d where
    "flush_each s (map fst (page_table s)) = Inr (s\<lparr>disk_manager := d\<rparr>)" by (elim exE)
  then have "step s FlushAllPages = Inr (s\<lparr>disk_manager := d\<rparr>)"
    by (simp add: FlushAllPagesImpl_def)
  with ok dk show ?thesis by simp
qed

lemma dirtied_single [simp]:
  "dirtied [FetchPage p] = {}" "dirtied [DeletePage p] = {}" "dirtied [FlushPage p] = {}"
  "dirtied [FlushAllPages] = {}" "dirtied [NewPage] = {}"
  by (simp_all add: dirtied_def)

lemma dirtied_Cons: "dirtied (x # xs) = dirtied [x] \<union> dirtied xs"
  by (auto simp: dirtied_def)

lemma step_inv:
  assumes ok: "frames_ok s" and dk: "dirty_ok s D" and nn: "x \<noteq> NewPage"
  shows "\<exists>s1. step s x = Inr s1 \<and> frames_ok s1 \<and> dirty_ok s1 (D \<union> dirtied [x])"
proof (cases x)
  case (FetchPage p)
  with FetchPage_inv [OF ok dk, of p] show ?thesis by auto
next
  case (UnpinPage p dirty)
  with UnpinPage_inv [OF ok dk, of p dirty] show ?thesis by auto
next
  case NewPage
  with nn show ?thesis by simp
next
  case (DeletePage p)
  with DeletePage_inv [OF ok dk, of p] show ?thesis by auto
next
  case (FlushPage p)
  with FlushPage_step_inv [OF ok dk, of p] show ?thesis by auto
next
  case FlushAllPages
  with FlushAllPages_step_inv [OF ok dk] show ?thesis by auto
qed

lemma run_inv:
  "frames_ok s \<Longrightarrow> dirty_ok s D \<Longrightarrow> NewPage \<notin> set ops \<Longrightarrow>
   \<exists>s1. run s ops = Inr s1 \<and> frames_ok s1 \<and> dirty_ok s1 (D \<union> dirtied ops)"
proof (induction ops arbitrary: s D)
  case Nil
  then show ?case by (simp add: dirtied_def)
next
  case (Cons x xs)
  from Cons.prems have nn: "x \<noteq> NewPage" and rest: "NewPage \<notin> set xs" by auto
  from step_inv [OF Cons.prems(1,2) nn] obtain s1 where
    s1: "step s x = Inr s1" "frames_ok s1" "dirty_ok s1 (D \<union> dirtied [x])"
    by (elim exE conjE)
  from Cons.IH [OF s1(2,3) rest] obtain s2 where
    s2: "run s1 xs = Inr s2" "frames_ok s2" "dirty_ok s2 (D \<union> dirtied [x] \<union> dirtied xs)"
    by (elim exE conjE)
  have "D \<union> dirtied [x] \<union> dirtied xs = D \<union> dirtied (x # xs)"
    using dirtied_Cons [of x xs] by auto
  with s1(1) s2 show ?case by simp
qed

lemma new_pool_ok: "frames_ok (new_BufferPoolManager n d) \<and> dirty_ok (new_BufferPoolManager n d) {}"
  by (auto simp: frames_ok_def dirty_ok_def new_BufferPoolManager_def new_LRUReplacer_def)

text \<open>
  C7, amended. Take any sequence of \<^verbatim>\<open>FetchPage\<close>, \<^verbatim>\<open>UnpinPage\<close>, \<^verbatim>\<open>DeletePage\<close>,
  \<^verbatim>\<open>FlushPage\<close> and \<^verbatim>\<open>FlushAllPages\<close> calls on a new pool, and a further call that is
  none of \<^verbatim>\<open>NewPage\<close>, \<^verbatim>\<open>FlushPage\<close>, \<^verbatim>\<open>FlushAllPages\<close>. The sequence and the call
  run without undefined behaviour, and every \<^verbatim>\<open>WritePage\<close> the call issues (the
  write-back of an evicted page in \<^verbatim>\<open>FetchPage\<close>) is for a page that the sequence passed
  to \<^verbatim>\<open>UnpinPage\<close> with the flag set.
\<close>

theorem writes_only_after_dirty_unpin:
  assumes nn: "NewPage \<notin> set ops"
    and x: "x \<noteq> NewPage" "x \<noteq> FlushAllPages" "\<forall>p. x \<noteq> FlushPage p"
  shows "\<exists>s s1. run (new_BufferPoolManager n d) ops = Inr s \<and> step s x = Inr s1 \<and>
           (\<forall>p \<in> set (issued s s1). UnpinPage p True \<in> set ops)"
proof -
  from new_pool_ok have ok0: "frames_ok (new_BufferPoolManager n d)"
    and dk0: "dirty_ok (new_BufferPoolManager n d) {}" by simp_all
  from run_inv [OF ok0 dk0 nn] obtain s where
    s: "run (new_BufferPoolManager n d) ops = Inr s" "frames_ok s" "dirty_ok s (dirtied ops)"
    by auto
  have "\<exists>s1. step s x = Inr s1 \<and> set (issued s s1) \<subseteq> dirtied ops"
  proof (cases x)
    case (FetchPage p)
    with FetchPage_inv [OF s(2,3), of p] show ?thesis by auto
  next
    case (UnpinPage p dirty)
    with UnpinPage_inv [OF s(2,3), of p dirty] show ?thesis by auto
  next
    case (DeletePage p)
    with DeletePage_inv [OF s(2,3), of p] show ?thesis by auto
  qed (use x in simp_all)
  then obtain s1 where "step s x = Inr s1" "set (issued s s1) \<subseteq> dirtied ops" by auto
  with s(1) show ?thesis by (auto simp: dirtied_def)
qed

theorem writes_only_after_dirty_unpin_witness:
  "run (fresh_pool 1) [FetchPage 0, UnpinPage 0 True] = Inr (pool1 0 True [0]) \<and>
   written_pages (step (pool1 0 True [0]) (FetchPage 1)) = Inr [0] \<and>
   UnpinPage 0 True \<in> set [FetchPage 0, UnpinPage 0 True]"
  using writes_only_after_dirty_unpin [of "[FetchPage 0, UnpinPage 0 True]" "FetchPage 1" 1
      "new_DiskManager (\<lambda>p. zeroed)"]
  by (simp add: bpm_defs ex_defs written_pages_def)

end
